theory Spec2Isabelle
  imports Complex_Main
begin

section \<open>Voice transcriber: strings, file names and participant names\<close>

text \<open>
  The development follows \<^verbatim>\<open>src/main.py\<close> (class \<^verbatim>\<open>VoiceTranscriber\<close>).
  A Python \<^verbatim>\<open>str\<close> is a sequence of code points. The text the transcription engine
  returns is classified by \<^verbatim>\<open>str.strip()\<close>, so it is modelled as the list of its code
  points (type \<open>unicode\<close>, any natural number being a code point). File names,
  participant identifiers and display names are only searched for \<^verbatim>\<open>'_'\<close> and
  \<^verbatim>\<open>'.'\<close>, compared and concatenated: they are modelled as \<^typ>\<open>string\<close>, a
  \<^typ>\<open>char\<close> being a code point below 256, and \<open>str_of\<close> gives their code points.
  Clock readings of \<^verbatim>\<open>time.time()\<close> are \<^typ>\<open>real\<close> seconds (exact arithmetic:
  rounding of the machine floats is not modelled), and every exception is a value of
  type \<open>exn\<close>.
\<close>

datatype exn = Exception string

type_synonym unicode = "nat list"

definition str_of :: "string \<Rightarrow> unicode" where
  "str_of s = map of_char s"

subsection \<open>\<^verbatim>\<open>str.strip()\<close>, \<^verbatim>\<open>str.split('_')\<close>, \<^verbatim>\<open>str(int)\<close> and \<^verbatim>\<open>Path.stem\<close>\<close>

text \<open>The code points for which \<^verbatim>\<open>str.isspace\<close> holds, which are those that
  \<^verbatim>\<open>str.strip()\<close> removes: U+0009..U+000D, U+001C..U+0020, U+0085 (next line), U+00A0
  (no-break space), U+1680, U+2000..U+200A, U+2028, U+2029, U+202F, U+205F and
  U+3000.\<close>

definition py_isspace :: "nat \<Rightarrow> bool" where
  "py_isspace c \<longleftrightarrow>
     (0x09 \<le> c \<and> c \<le> 0x0D) \<or> (0x1C \<le> c \<and> c \<le> 0x20) \<or> c = 0x85 \<or> c = 0xA0
     \<or> c = 0x1680 \<or> (0x2000 \<le> c \<and> c \<le> 0x200A) \<or> c = 0x2028 \<or> c = 0x2029
     \<or> c = 0x202F \<or> c = 0x205F \<or> c = 0x3000"

definition strip :: "unicode \<Rightarrow> unicode" where
  "strip s = rev (dropWhile py_isspace (rev (dropWhile py_isspace s)))"

text \<open>\<^verbatim>\<open>s.split(sep)\<close> with an explicit one-character separator: every occurrence
  splits, empty pieces are kept, and the result is never empty.\<close>

fun split :: "char \<Rightarrow> string \<Rightarrow> string list" where
  "split sep [] = [[]]"
| "split sep (c # cs) =
     (if c = sep then [] # split sep cs
      else (case split sep cs of
              [] \<Rightarrow> [[c]]
            | w # ws \<Rightarrow> (c # w) # ws))"

text \<open>\<^verbatim>\<open>xs[i]\<close> for a non-negative index: out of range raises IndexError.\<close>

definition py_index :: "'a list \<Rightarrow> nat \<Rightarrow> exn + 'a" where
  "py_index xs i = (if i < length xs then Inr (xs ! i) else Inl (Exception ''IndexError''))"

definition digit :: "nat \<Rightarrow> char" where
  "digit d = char_of (48 + d)"

function str_nat :: "nat \<Rightarrow> string" where
  "str_nat n = (if n < 10 then [digit n] else str_nat (n div 10) @ [digit (n mod 10)])"
  by pat_completeness auto
termination
  by (relation "measure (\<lambda>n. n)") auto

declare str_nat.simps [simp del]

text \<open>\<^verbatim>\<open>PurePath.stem\<close> of a file name (the final path component): the name up to its
  last dot, unless that dot is the first or the last character of the name.\<close>

definition rfind_dot :: "string \<Rightarrow> nat option" where
  "rfind_dot name =
     (if CHR ''.'' \<in> set name
      then Some (length name - Suc (length (takeWhile (\<lambda>c. c \<noteq> CHR ''.'') (rev name))))
      else None)"

definition stem :: "string \<Rightarrow> string" where
  "stem name =
     (case rfind_dot name of
        None \<Rightarrow> name
      | Some i \<Rightarrow> if 0 < i \<and> i < length name - 1 then take i name else name)"

text \<open>Line 190: \<^verbatim>\<open>stem.split('_')[1] if '_' in stem else stem\<close>.\<close>

definition extract_user_id :: "string \<Rightarrow> exn + string" where
  "extract_user_id st =
     (if CHR ''_'' \<in> set st then py_index (split (CHR ''_'') st) 1 else Inr st)"

subsection \<open>The shared state of the bot object\<close>

record file_meta =
  st_mtime :: real
  st_size :: nat

text \<open>Every call on a collaborator (transcription engine, chat platform, file system)
  is appended to a list of effects, so that "is not invoked" and "exactly once" are
  statements about that list. \<open>Unlink p\<close> is a call of \<^verbatim>\<open>unlink()\<close> that removed the
  file, \<open>UnlinkFailed p\<close> one that raised.\<close>

datatype effect =
    Transcribe string
  | FetchGuild nat
  | FetchMember string
  | ChannelSend unicode
  | Unlink string
  | UnlinkFailed string

record world =
  fs :: "string \<rightharpoonup> file_meta"
  user_cache :: "string \<rightharpoonup> string"
  effects :: "effect list"

record member =
  display_name :: "string option"
  username :: string

type_synonym guild = "string \<Rightarrow> exn + member"

text \<open>The collaborators the code calls; each may raise. Whether \<^verbatim>\<open>unlink()\<close> raises
  for a file may depend on what happened before (the effects so far), so that a second
  attempt on the same file need not end as the first did.\<close>

record collaborators =
  whisper_transcribe :: "string \<Rightarrow> exn + unicode"
  fetch_guild :: "nat \<Rightarrow> exn + guild"
  channel_send :: "unicode \<Rightarrow> exn + unit"
  os_unlink :: "effect list \<Rightarrow> string \<Rightarrow> exn + unit"

definition emit :: "effect \<Rightarrow> world \<Rightarrow> world" where
  "emit e w = w\<lparr>effects := effects w @ [e]\<rparr>"

subsection \<open>\<^verbatim>\<open>get_username\<close> (lines 46-61)\<close>

definition cache_key :: "string \<Rightarrow> nat \<Rightarrow> string" where
  "cache_key user_id guild_id = user_id @ ''_'' @ str_nat guild_id"

text \<open>\<^verbatim>\<open>member.display_name or member.username\<close>: \<^verbatim>\<open>None\<close> and the empty string
  are both falsy.\<close>

definition member_name :: "member \<Rightarrow> string" where
  "member_name m =
     (case display_name m of
        None \<Rightarrow> username m
      | Some d \<Rightarrow> if d \<noteq> [] then d else username m)"

definition get_username :: "collaborators \<Rightarrow> string \<Rightarrow> nat \<Rightarrow> world \<Rightarrow> string \<times> world" where
  "get_username env user_id guild_id w =
     (case user_cache w (cache_key user_id guild_id) of
        Some name \<Rightarrow> (name, w)
      | None \<Rightarrow>
          (let w1 = emit (FetchGuild guild_id) w in
           case fetch_guild env guild_id of
             Inl e \<Rightarrow> (''User_'' @ user_id, w1)
           | Inr g \<Rightarrow>
               (let w2 = emit (FetchMember user_id) w1 in
                case g user_id of
                  Inl e \<Rightarrow> (''User_'' @ user_id, w2)
                | Inr m \<Rightarrow>
                    (member_name m,
                     w2\<lparr>user_cache := (user_cache w2)(cache_key user_id guild_id \<mapsto> member_name m)\<rparr>))))"

section \<open>The transcription sweeper: \<^verbatim>\<open>continuous_processing\<close> (lines 161-205)\<close>

text \<open>What one iteration of the \<^verbatim>\<open>for file_path in files\<close> loop reads from its
  environment: the clock and the tracker's \<^verbatim>\<open>is_speaking\<close> flag.\<close>

record obs =
  now :: real
  speaking :: bool

text \<open>\<^verbatim>\<open>file_path.unlink()\<close>: removes the file, or raises and leaves it.\<close>

definition unlink :: "collaborators \<Rightarrow> string \<Rightarrow> world \<Rightarrow> exn option \<times> world" where
  "unlink env p w =
     (case os_unlink env (effects w) p of
        Inl e \<Rightarrow> (Some e, emit (UnlinkFailed p) w)
      | Inr u \<Rightarrow> (None, emit (Unlink p) (w\<lparr>fs := (fs w)(p := None)\<rparr>)))"

text \<open>\<^verbatim>\<open>if file_path.exists(): file_path.unlink()\<close> (lines 195-196 and 199-200).\<close>

definition unlink_if_exists :: "collaborators \<Rightarrow> string \<Rightarrow> world \<Rightarrow> exn option \<times> world" where
  "unlink_if_exists env p w =
     (case fs w p of
        None \<Rightarrow> (None, w)
      | Some m \<Rightarrow> unlink env p w)"

text \<open>Lines 174-193: the engine call and what follows it. The result pairs the
  exception raised, if any, with the state reached: the handler runs in that state.\<close>

definition transcribe_and_send :: "collaborators \<Rightarrow> nat \<Rightarrow> string \<Rightarrow> world \<Rightarrow> exn option \<times> world" where
  "transcribe_and_send env guild_id p w =
     (let w1 = emit (Transcribe p) w in
      case whisper_transcribe env p of
        Inl e \<Rightarrow> (Some e, w1)
      | Inr text \<Rightarrow>
          (let transcription = strip text in
           if transcription \<noteq> [] then
             (case extract_user_id (stem p) of
                Inl e \<Rightarrow> (Some e, w1)
              | Inr user_id \<Rightarrow>
                  (let (name, w2) = get_username env user_id guild_id w1;
                       msg = str_of (name @ '': '') @ transcription;
                       w3 = emit (ChannelSend msg) w2
                   in case channel_send env msg of
                        Inl e \<Rightarrow> (Some e, w3)
                      | Inr u \<Rightarrow> (None, w3)))
           else (None, w1)))"

text \<open>Lines 169-196, the body of the inner \<^verbatim>\<open>try\<close>. \<^verbatim>\<open>stat()\<close> raises for a file
  that is no longer there, and \<^verbatim>\<open>unlink()\<close> may raise.\<close>

definition try_file :: "collaborators \<Rightarrow> nat \<Rightarrow> obs \<Rightarrow> string \<Rightarrow> world \<Rightarrow> exn option \<times> world" where
  "try_file env guild_id ob p w =
     (case fs w p of
        None \<Rightarrow> (Some (Exception ''FileNotFoundError''), w)
      | Some m \<Rightarrow>
          (let file_age = now ob - st_mtime m in
           if file_age > 0.75 \<and> \<not> speaking ob then
             (case (if st_size m > 1024 then transcribe_and_send env guild_id p w
                    else (None, w)) of
                (Some e, w1) \<Rightarrow> (Some e, w1)
              | (None, w1) \<Rightarrow> unlink_if_exists env p w1)
           else (None, w)))"

text \<open>Lines 168-200: the \<^verbatim>\<open>try\<close> with its handler, which deletes the file too. An
  exception raised by the handler's own \<^verbatim>\<open>unlink()\<close> is not caught here: it is the
  first component of the result.\<close>

definition process_file :: "collaborators \<Rightarrow> nat \<Rightarrow> obs \<Rightarrow> string \<Rightarrow> world \<Rightarrow> exn option \<times> world" where
  "process_file env guild_id ob p w =
     (case try_file env guild_id ob p w of
        (None, w1) \<Rightarrow> (None, w1)
      | (Some e, w1) \<Rightarrow> unlink_if_exists env p w1)"

text \<open>Lines 165-203: one sweep over the listing \<^verbatim>\<open>glob("*.wav")\<close> returned, each file
  with what its iteration observes. An exception that leaves an iteration ends the
  \<^verbatim>\<open>for\<close> loop; the outer handler (line 202) logs it, and the files that were not
  reached wait for the next sweep.\<close>

fun sweep :: "collaborators \<Rightarrow> nat \<Rightarrow> (string \<times> obs) list \<Rightarrow> world \<Rightarrow> exn option \<times> world" where
  "sweep env guild_id [] w = (None, w)"
| "sweep env guild_id ((p, ob) # files) w =
     (case process_file env guild_id ob p w of
        (Some e, w1) \<Rightarrow> (Some e, w1)
      | (None, w1) \<Rightarrow> sweep env guild_id files w1)"


text \<open>The effects a run added to those of the state it started from.\<close>

definition new_effects :: "world \<Rightarrow> world \<Rightarrow> effect list" where
  "new_effects w w' = drop (length (effects w)) (effects w')"

fun is_unlink :: "effect \<Rightarrow> bool" where
  "is_unlink (Unlink p) = True"
| "is_unlink e = False"

text \<open>The text between the first and the second underscore of a string (up to the
  end when there is no second one).\<close>

definition second_token :: "string \<Rightarrow> string" where
  "second_token st =
     takeWhile (\<lambda>c. c \<noteq> CHR ''_'') (tl (dropWhile (\<lambda>c. c \<noteq> CHR ''_'') st))"

text \<open>Name resolution is attempted and raises: either fetch fails.\<close>

definition resolution_fails :: "collaborators \<Rightarrow> string \<Rightarrow> nat \<Rightarrow> bool" where
  "resolution_fails env user_id guild_id =
     (case fetch_guild env guild_id of
        Inl e \<Rightarrow> True
      | Inr g \<Rightarrow> (case g user_id of Inl e \<Rightarrow> True | Inr m \<Rightarrow> False))"


subsection \<open>A concrete staging directory\<close>

text \<open>Four staged files written at clock time 10: one with speech, one for which the
  engine returns only white space (a space, a line feed, a no-break space and an
  ideographic space), one for which it raises, and a 500-byte capture. Every name
  lookup fails; the channel accepts every message; every file can be removed.\<close>

definition example_env :: collaborators where
  "example_env =
     \<lparr>whisper_transcribe = (\<lambda>p.
         if p = ''rec_42.wav'' then Inr (str_of '' hello there '')
         else if p = ''rec_7.wav'' then Inr [0x20, 0x0A, 0xA0, 0x3000]
         else Inl (Exception ''RuntimeError'')),
      fetch_guild = (\<lambda>g. Inl (Exception ''NotFound'')),
      channel_send = (\<lambda>msg. Inr ()),
      os_unlink = (\<lambda>es p. Inr ())\<rparr>"

text \<open>The same collaborators, except that \<^verbatim>\<open>unlink()\<close> always raises for one
  file, and raises once for another, whose second \<^verbatim>\<open>unlink()\<close> goes through.\<close>

definition locked_env :: collaborators where
  "locked_env =
     example_env\<lparr>os_unlink := (\<lambda>es p.
        if p = ''bad_9.wav'' then Inl (Exception ''PermissionError'')
        else if p = ''small_1.wav'' \<and> UnlinkFailed p \<notin> set es
          then Inl (Exception ''PermissionError'')
        else Inr ())\<rparr>"

definition example_world :: world where
  "example_world =
     \<lparr>fs = [''rec_42.wav'' \<mapsto> \<lparr>st_mtime = 10, st_size = 4096\<rparr>,
            ''rec_7.wav'' \<mapsto> \<lparr>st_mtime = 10, st_size = 2048\<rparr>,
            ''bad_9.wav'' \<mapsto> \<lparr>st_mtime = 10, st_size = 4096\<rparr>,
            ''small_1.wav'' \<mapsto> \<lparr>st_mtime = 10, st_size = 500\<rparr>],
      user_cache = Map.empty,
      effects = []\<rparr>"

section \<open>The voice-activity tracker and the segment recorder\<close>

text \<open>The attributes of the bot object that the recorder loop and the event handler
  share, with the state of the voice provider: while \<open>capture_fault\<close> holds, its
  \<^verbatim>\<open>start_recording\<close> and \<^verbatim>\<open>stop_recording\<close> raise.\<close>

record shared =
  self_id :: nat
  is_processing :: bool
  is_speaking :: bool
  last_speech_time :: real
  capture_fault :: bool

text \<open>\<^verbatim>\<open>event.after\<close> of a voice-state event: \<^verbatim>\<open>None\<close>, or a state with
  \<^verbatim>\<open>user.id\<close> and \<^verbatim>\<open>speaking\<close>.\<close>

record voice_state =
  vs_user_id :: nat
  vs_speaking :: bool

text \<open>\<^verbatim>\<open>on_voice_state_update\<close> (lines 116-127); \<open>t\<close> is what \<^verbatim>\<open>time.time()\<close> reads.\<close>

definition on_voice_state_update :: "real \<Rightarrow> voice_state option \<Rightarrow> shared \<Rightarrow> shared" where
  "on_voice_state_update t after sh =
     (case after of
        None \<Rightarrow> sh\<lparr>is_speaking := False\<rparr>
      | Some vs \<Rightarrow>
          if vs_user_id vs = self_id sh then sh
          else if vs_speaking vs then sh\<lparr>is_speaking := True, last_speech_time := t\<rparr>
          else sh\<lparr>is_speaking := False\<rparr>)"

text \<open>
  The recorder is a coroutine: it runs until its next \<^verbatim>\<open>await\<close>, and while it is
  suspended the event handler and the commands run. A timeline lists, in order, what
  happens around one recorder task: \<open>Wake t\<close> resumes the recorder, whose next
  \<^verbatim>\<open>time.time()\<close> reads \<open>t\<close>; the other items happen while it is suspended.
  The timeline is finite, and a loop that has used it up is still running.
\<close>

datatype item =
    Wake real
  | VoiceStateUpdate real "voice_state option"
  | SetProcessing bool
  | CaptureFault bool

fun external :: "item \<Rightarrow> shared \<Rightarrow> shared" where
  "external (Wake t) sh = sh"
| "external (VoiceStateUpdate t after) sh = on_voice_state_update t after sh"
| "external (SetProcessing b) sh = sh\<lparr>is_processing := b\<rparr>"
| "external (CaptureFault b) sh = sh\<lparr>capture_fault := b\<rparr>"

text \<open>Lines 81-101, one iteration of the \<^verbatim>\<open>while True\<close> loop with the clock reading
  \<open>current_time\<close>: \<open>None\<close> is \<^verbatim>\<open>break\<close>, \<open>Some d\<close> sleeps and iterates with
  \<^verbatim>\<open>recording_duration = d\<close>.\<close>

definition loop_body :: "real \<Rightarrow> real \<Rightarrow> shared \<Rightarrow> real \<Rightarrow> real option" where
  "loop_body start_time recording_duration sh current_time =
     (let elapsed_time = current_time - start_time;
          time_since_last_speech = current_time - last_speech_time sh
      in if is_speaking sh then Some (max recording_duration (elapsed_time + 2))
         else if time_since_last_speech \<ge> 1.0 \<and> elapsed_time \<ge> recording_duration then None
         else Some recording_duration)"

text \<open>The \<^verbatim>\<open>while True\<close> loop (lines 80-101), suspended in \<^verbatim>\<open>asyncio.sleep(0.1)\<close>:
  \<open>Broke d t sh rest\<close> left the loop at clock reading \<open>t\<close> with target duration
  \<open>d\<close>; \<open>Recording d sh\<close> is still in the loop at the end of the timeline.\<close>

datatype loop_result =
    Broke real real shared "item list"
  | Recording real shared

fun record_loop :: "real \<Rightarrow> real \<Rightarrow> shared \<Rightarrow> item list \<Rightarrow> loop_result" where
  "record_loop start_time d sh [] = Recording d sh"
| "record_loop start_time d sh (Wake t # rest) =
     (case loop_body start_time d sh t of
        None \<Rightarrow> Broke d t sh rest
      | Some d' \<Rightarrow> record_loop start_time d' sh rest)"
| "record_loop start_time d sh (x # rest) = record_loop start_time d (external x sh) rest"

fun target :: "loop_result \<Rightarrow> real" where
  "target (Broke d t sh rest) = d"
| "target (Recording d sh) = d"

text \<open>Any other \<^verbatim>\<open>await\<close> of the recorder: suspended until the next \<open>Wake\<close>.\<close>

datatype awaited =
    Resumed real shared "item list"
  | Pending shared

fun await :: "shared \<Rightarrow> item list \<Rightarrow> awaited" where
  "await sh [] = Pending sh"
| "await sh (Wake t # rest) = Resumed t sh rest"
| "await sh (x # rest) = await (external x sh) rest"

datatype call = StartRecording | StopRecording

text \<open>Lines 68-106, the body of the inner \<^verbatim>\<open>try\<close>. The first iteration of the loop
  reads the clock right after \<^verbatim>\<open>start_time\<close> was read: both read the same value.
  Stopping the capture and waiting for it is one suspension.\<close>

datatype body_result =
    Completed shared "call list" "item list"
  | Raised shared "call list" "item list"
  | Suspended shared "call list"

definition cycle_body :: "shared \<Rightarrow> call list \<Rightarrow> item list \<Rightarrow> body_result" where
  "cycle_body sh calls items =
     (let calls1 = calls @ [StartRecording] in
      if capture_fault sh then Raised sh calls1 items
      else
        (case await sh items of
           Pending sh1 \<Rightarrow> Suspended sh1 calls1
         | Resumed start_time sh1 rest \<Rightarrow>
             (case record_loop start_time 20 sh1 (Wake start_time # rest) of
                Recording d sh2 \<Rightarrow> Suspended sh2 calls1
              | Broke d t sh2 rest2 \<Rightarrow>
                  (let calls2 = calls1 @ [StopRecording] in
                   case await sh2 rest2 of
                     Pending sh3 \<Rightarrow> Suspended sh3 calls2
                   | Resumed t3 sh3 rest3 \<Rightarrow>
                       if capture_fault sh3 then Raised sh3 calls2 rest3
                       else Completed sh3 calls2 rest3))))"

text \<open>The provider calls a cycle body has made when it ends or is suspended.\<close>

fun calls_of :: "body_result \<Rightarrow> call list" where
  "calls_of (Completed sh calls rest) = calls"
| "calls_of (Raised sh calls rest) = calls"
| "calls_of (Suspended sh calls) = calls"

text \<open>\<^verbatim>\<open>cycle_recording\<close> (lines 63-113): the \<^verbatim>\<open>while self.is_processing\<close> loop; its
  handler sleeps 0.5 s and the loop goes on. \<open>Exited\<close>: the loop has ended;
  \<open>Running\<close>: it has not, at the end of the timeline.\<close>

datatype status = Exited | Running

function cycle_recording :: "shared \<Rightarrow> call list \<Rightarrow> item list \<Rightarrow> status \<times> shared \<times> call list" where
  "cycle_recording sh calls items =
     (if \<not> is_processing sh then (Exited, sh, calls)
      else
        (case cycle_body sh calls items of
           Suspended sh1 calls1 \<Rightarrow> (Running, sh1, calls1)
         | Completed sh1 calls1 rest \<Rightarrow> cycle_recording sh1 calls1 rest
         | Raised sh1 calls1 rest \<Rightarrow>
             (case await sh1 rest of
                Pending sh2 \<Rightarrow> (Running, sh2, calls1)
              | Resumed t sh2 rest2 \<Rightarrow> cycle_recording sh2 calls1 rest2)))"
  by pat_completeness auto
termination
proof (relation "measure (\<lambda>(sh, calls, items). length items)")
  have aw: "length rest < length items"
    if "await sh items = Resumed t sh' rest" for sh items t sh' rest
    using that by (induction sh items rule: await.induct) auto
  have rl: "length rest < length items"
    if "record_loop s d sh items = Broke d' t sh' rest" for s d sh items d' t sh' rest
    using that
    by (induction s d sh items rule: record_loop.induct) (auto split: option.splits)
  have compl: "length rest < length items"
    if "cycle_body sh calls items = Completed sh' calls' rest" for sh calls items sh' calls' rest
    using that
    by (auto simp add: cycle_body_def Let_def simp del: record_loop.simps
          split: if_splits awaited.splits loop_result.splits dest!: aw rl)
  have raised: "length rest \<le> length items"
    if "cycle_body sh calls items = Raised sh' calls' rest" for sh calls items sh' calls' rest
    using that
    by (auto simp add: cycle_body_def Let_def simp del: record_loop.simps
          split: if_splits awaited.splits loop_result.splits dest!: aw rl)
  show "wf (measure (\<lambda>(sh, calls, items). length items))" by simp
  show "((sh1, calls1, rest), (sh, calls, items)) \<in> measure (\<lambda>(sh, calls, items). length items)"
    if "cycle_body sh calls items = Completed sh1 calls1 rest" for sh calls items sh1 calls1 rest
    using compl [OF that] by simp
  show "((sh2, calls1, rest2), (sh, calls, items)) \<in> measure (\<lambda>(sh, calls, items). length items)"
    if "cycle_body sh calls items = Raised sh1 calls1 rest" and "await sh1 rest = Resumed t sh2 rest2"
    for sh calls items sh1 calls1 rest t sh2 rest2
    using raised [OF that(1)] aw [OF that(2)] by simp
qed

declare cycle_recording.simps [simp del]

text \<open>The recorder's ticks \<open>i/10, ..., (j-1)/10\<close> seconds, on the 0.1 s grid.\<close>

definition ticks :: "nat \<Rightarrow> nat \<Rightarrow> item list" where
  "ticks i j = map (\<lambda>k. Wake (real k / 10)) [i..<j]"

text \<open>A bot (user 1) in a session, nobody speaking, the last speech at clock time 0.\<close>

definition quiet :: shared where
  "quiet = \<lparr>self_id = 1, is_processing = True, is_speaking = False,
            last_speech_time = 0, capture_fault = False\<rparr>"

definition speaks :: "nat \<Rightarrow> bool \<Rightarrow> voice_state option" where
  "speaks u b = Some \<lparr>vs_user_id = u, vs_speaking = b\<rparr>"

text \<open>The scenario: speech starts at 0 s and ends at 3 s; the recorder ticks every
  0.1 s from 0 s to 24.9 s.\<close>

definition scenario_timeline :: "item list" where
  "scenario_timeline =
     VoiceStateUpdate 0 (speaks 7 True) # ticks 0 30 @ VoiceStateUpdate 3 (speaks 7 False) # ticks 30 250"

section \<open>Properties of the sweeper\<close>

subsection \<open>Splitting and the participant identifier\<close>

lemma split_not_Nil: "split sep s \<noteq> []"
  by (induction s) (auto split: list.splits)

lemma hd_split: "hd (split sep s) = takeWhile (\<lambda>c. c \<noteq> sep) s"
  by (induction s) (auto split: list.splits simp: split_not_Nil)

lemma split_second:
  "sep \<in> set s \<Longrightarrow>
   1 < length (split sep s) \<and>
   split sep s ! 1 = takeWhile (\<lambda>c. c \<noteq> sep) (tl (dropWhile (\<lambda>c. c \<noteq> sep) s))"
proof (induction s)
  case Nil
  then show ?case by simp
next
  case (Cons c cs)
  show ?case
  proof (cases "c = sep")
    case True
    obtain w ws where "split sep cs = w # ws"
      using split_not_Nil [of sep cs] by (cases "split sep cs") auto
    then show ?thesis
      using True hd_split [of sep cs] by simp
  next
    case False
    with Cons.prems have "sep \<in> set cs" by simp
    from Cons.IH [OF this] False show ?thesis
      by (cases "split sep cs") auto
  qed
qed

lemma extract_user_id_eq:
  "extract_user_id st = Inr (if CHR ''_'' \<in> set st then second_token st else st)"
  using split_second [of "CHR ''_''" st]
  by (simp add: extract_user_id_def py_index_def second_token_def)

lemma get_username_fs: "fs (snd (get_username env u g w)) = fs w"
  by (simp add: get_username_def emit_def Let_def split: option.splits sum.splits)

lemma get_username_effects:
  "\<exists>es. effects (snd (get_username env u g w)) = effects w @ es \<and> filter is_unlink es = []
      \<and> set es \<subseteq> {FetchGuild g, FetchMember u}"
  by (auto simp add: get_username_def emit_def Let_def split: option.splits sum.splits)

lemma tas_fs: "fs (snd (transcribe_and_send env g p w)) = fs w"
  using get_username_fs [of env _ g "emit (Transcribe p) w"]
  by (auto simp add: transcribe_and_send_def emit_def Let_def split_beta split: option.splits sum.splits)



lemma tas_silent:
  assumes "whisper_transcribe env p = Inl e \<or> (\<exists>res. whisper_transcribe env p = Inr res \<and> strip res = [])"
  shows "fs (snd (transcribe_and_send env g p w)) = fs w
       \<and> effects (snd (transcribe_and_send env g p w)) = effects w @ [Transcribe p]"
  using assms by (auto simp add: transcribe_and_send_def emit_def)

lemma tas_speech:
  assumes "whisper_transcribe env p = Inr res" and "strip res \<noteq> []"
  shows "\<exists>es name. effects (snd (transcribe_and_send env g p w))
            = effects w @ Transcribe p # es @ [ChannelSend (str_of (name @ '': '') @ strip res)]
          \<and> (\<forall>e \<in> set es. \<exists>g u. e = FetchGuild g \<or> e = FetchMember u)"
proof -
  obtain u where u: "extract_user_id (stem p) = Inr u"
    using extract_user_id_eq by blast
  let ?w1 = "emit (Transcribe p) w"
  obtain es where es: "effects (snd (get_username env u g ?w1)) = effects ?w1 @ es"
      "set es \<subseteq> {FetchGuild g, FetchMember u}"
    using get_username_effects [of env u g ?w1] by blast
  have "effects (snd (transcribe_and_send env g p w))
          = effects w @ Transcribe p # es
              @ [ChannelSend (str_of (fst (get_username env u g ?w1) @ '': '') @ strip res)]"
    using assms es(1) u
    by (simp add: transcribe_and_send_def emit_def Let_def split_beta split: sum.splits)
  moreover have "\<forall>e \<in> set es. \<exists>g u. e = FetchGuild g \<or> e = FetchMember u"
    using es(2) by auto
  ultimately show ?thesis by blast
qed

subsection \<open>Deleting a file\<close>

lemma uie_missing: "fs w p = None \<Longrightarrow> unlink_if_exists env p w = (None, w)"
  by (simp add: unlink_if_exists_def)


lemma uie_raised:
  "unlink_if_exists env p w = (Some e, w2) \<Longrightarrow> w2 = emit (UnlinkFailed p) w"
  by (auto simp add: unlink_if_exists_def unlink_def split: option.splits sum.splits)


lemma uie_no_create: "fs w q = None \<Longrightarrow> fs (snd (unlink_if_exists env p w)) q = None"
  by (simp add: unlink_if_exists_def unlink_def emit_def split: option.splits sum.splits)

lemma uie_effects:
  "\<exists>es. effects (snd (unlink_if_exists env p w)) = effects w @ es
        \<and> set es \<subseteq> {Unlink p, UnlinkFailed p}"
  by (simp add: unlink_if_exists_def unlink_def emit_def split: option.splits sum.splits)

subsection \<open>One file\<close>

lemma process_file_skipped:
  assumes "fs w p = Some m" and "now ob - st_mtime m \<le> 0.75 \<or> speaking ob"
  shows "process_file env g ob p w = (None, w)"
  using assms by (auto simp add: process_file_def try_file_def)

lemma process_file_missing:
  assumes "fs w p = None"
  shows "process_file env g ob p w = (None, w)"
  using assms by (simp add: process_file_def try_file_def unlink_if_exists_def)

text \<open>An eligible file: \<open>w1\<close> is the state after the engine call and the message, if
  any; then the file is removed by the first \<^verbatim>\<open>unlink()\<close>, or by the handler's.\<close>

lemma process_file_eligible:
  assumes "fs w p = Some m" and "now ob - st_mtime m > 0.75" and "\<not> speaking ob"
    and "w1 = (if st_size m > 1024 then snd (transcribe_and_send env g p w) else w)"
  shows "process_file env g ob p w = unlink_if_exists env p w1
       \<or> (\<exists>e. unlink_if_exists env p w1 = (Some e, emit (UnlinkFailed p) w1)
              \<and> process_file env g ob p w = unlink_if_exists env p (emit (UnlinkFailed p) w1))"
proof -
  define r where "r = fst (if st_size m > 1024 then transcribe_and_send env g p w else (None, w))"
  have r: "(if st_size m > 1024 then transcribe_and_send env g p w else (None, w)) = (r, w1)"
    using assms(4) by (simp add: r_def)
  show ?thesis
  proof (cases r)
    case (Some e)
    with r assms(1-3) have "process_file env g ob p w = unlink_if_exists env p w1"
      by (simp add: process_file_def try_file_def)
    then show ?thesis by simp
  next
    case None
    with r assms(1-3) have t: "try_file env g ob p w = unlink_if_exists env p w1"
      by (simp add: try_file_def)
    obtain r2 w2 where u: "unlink_if_exists env p w1 = (r2, w2)"
      by (cases "unlink_if_exists env p w1")
    show ?thesis
    proof (cases r2)
      case None
      with t u show ?thesis by (simp add: process_file_def)
    next
      case (Some e)
      with u uie_raised [of env p w1 e w2] have "w2 = emit (UnlinkFailed p) w1" by simp
      with t u Some show ?thesis by (auto simp add: process_file_def)
    qed
  qed
qed

lemma process_file_cases:
  "process_file env g ob p w = (None, w) \<or>
   (\<exists>m. fs w p = Some m \<and> now ob - st_mtime m > 0.75 \<and> \<not> speaking ob)"
proof (cases "fs w p")
  case None
  then show ?thesis by (simp add: process_file_missing)
next
  case (Some m)
  with process_file_skipped [of w p m ob env g] show ?thesis by fastforce
qed

lemma process_file_effects:
  assumes "fs w p = Some m" and "now ob - st_mtime m > 0.75" and "\<not> speaking ob"
    and "w1 = (if st_size m > 1024 then snd (transcribe_and_send env g p w) else w)"
  shows "\<exists>es. effects (snd (process_file env g ob p w)) = effects w1 @ es
             \<and> set es \<subseteq> {Unlink p, UnlinkFailed p}"
proof -
  from process_file_eligible [OF assms]
  consider "process_file env g ob p w = unlink_if_exists env p w1"
    | "process_file env g ob p w = unlink_if_exists env p (emit (UnlinkFailed p) w1)"
    by blast
  then show ?thesis
  proof cases
    case 1
    with uie_effects [of env p w1] show ?thesis by simp
  next
    case 2
    obtain es where "effects (snd (unlink_if_exists env p (emit (UnlinkFailed p) w1)))
        = effects (emit (UnlinkFailed p) w1) @ es" "set es \<subseteq> {Unlink p, UnlinkFailed p}"
      using uie_effects [of env p "emit (UnlinkFailed p) w1"] by blast
    with 2 have "effects (snd (process_file env g ob p w)) = effects w1 @ (UnlinkFailed p # es)
        \<and> set (UnlinkFailed p # es) \<subseteq> {Unlink p, UnlinkFailed p}"
      by (simp add: emit_def)
    then show ?thesis by blast
  qed
qed


lemma process_file_no_create:
  "fs w q = None \<Longrightarrow> fs (snd (process_file env g ob p w)) q = None"
proof -
  assume n: "fs w q = None"
  from process_file_cases [of env g ob p w]
  show ?thesis
  proof
    assume "process_file env g ob p w = (None, w)"
    with n show ?thesis by simp
  next
    assume "\<exists>m. fs w p = Some m \<and> now ob - st_mtime m > 0.75 \<and> \<not> speaking ob"
    then obtain m where m: "fs w p = Some m" "now ob - st_mtime m > 0.75" "\<not> speaking ob"
      by blast
    let ?w1 = "if st_size m > 1024 then snd (transcribe_and_send env g p w) else w"
    have w1: "fs ?w1 = fs w" by (simp add: tas_fs)
    from process_file_eligible [OF m refl, of env g]
    consider "process_file env g ob p w = unlink_if_exists env p ?w1"
      | "process_file env g ob p w = unlink_if_exists env p (emit (UnlinkFailed p) ?w1)"
      by blast
    then show ?thesis
    proof cases
      case 1
      with uie_no_create [of ?w1 q env p] w1 n show ?thesis by simp
    next
      case 2
      have "fs (emit (UnlinkFailed p) ?w1) = fs w" using w1 by (simp add: emit_def)
      with 2 uie_no_create [of "emit (UnlinkFailed p) ?w1" q env p] n show ?thesis by simp
    qed
  qed
qed



subsection \<open>One sweep\<close>


lemma sweep_no_create: "fs w q = None \<Longrightarrow> fs (snd (sweep env g files w)) q = None"
proof (induction files arbitrary: w)
  case Nil
  then show ?case by simp
next
  case (Cons f files)
  obtain p ob where f: "f = (p, ob)" by (cases f)
  obtain r w1 where pf: "process_file env g ob p w = (r, w1)"
    by (cases "process_file env g ob p w")
  have "fs w1 q = None"
    using process_file_no_create [OF Cons.prems, of env g ob p] pf by simp
  with Cons.IH [of w1] f pf show ?case by (cases r) simp_all
qed



subsection \<open>What a file adds to the effects\<close>

lemma blank_effects:
  assumes "whisper_transcribe env p = Inl e \<or> (\<exists>res. whisper_transcribe env p = Inr res \<and> strip res = [])"
  shows "set (new_effects w (snd (process_file env g ob p w)))
           \<subseteq> {Transcribe p, Unlink p, UnlinkFailed p}"
proof -
  from process_file_cases [of env g ob p w]
  show ?thesis
  proof
    assume "process_file env g ob p w = (None, w)"
    then show ?thesis by (simp add: new_effects_def)
  next
    assume "\<exists>m. fs w p = Some m \<and> now ob - st_mtime m > 0.75 \<and> \<not> speaking ob"
    then obtain m where m: "fs w p = Some m" "now ob - st_mtime m > 0.75" "\<not> speaking ob"
      by blast
    let ?w1 = "if st_size m > 1024 then snd (transcribe_and_send env g p w) else w"
    have "effects ?w1 = effects w \<or> effects ?w1 = effects w @ [Transcribe p]"
      using tas_silent [OF assms, of g w] by simp
    moreover obtain es where "effects (snd (process_file env g ob p w)) = effects ?w1 @ es"
        "set es \<subseteq> {Unlink p, UnlinkFailed p}"
      using process_file_effects [OF m refl, of env g] by blast
    ultimately show ?thesis by (auto simp add: new_effects_def)
  qed
qed

lemma send_needs_speech:
  assumes "ChannelSend msg \<in> set (new_effects w (snd (process_file env g ob p w)))"
  shows "\<exists>res name. whisper_transcribe env p = Inr res \<and> strip res \<noteq> []
           \<and> msg = str_of (name @ '': '') @ strip res"
proof (cases "whisper_transcribe env p")
  case (Inl e)
  then have "set (new_effects w (snd (process_file env g ob p w)))
      \<subseteq> {Transcribe p, Unlink p, UnlinkFailed p}"
    using blank_effects by blast
  with assms show ?thesis by auto
next
  case (Inr res)
  show ?thesis
  proof (cases "strip res = []")
    case True
    with Inr have "set (new_effects w (snd (process_file env g ob p w)))
        \<subseteq> {Transcribe p, Unlink p, UnlinkFailed p}"
      using blank_effects by blast
    with assms show ?thesis by auto
  next
    case False
    from process_file_cases [of env g ob p w] assms
    obtain m where m: "fs w p = Some m" "now ob - st_mtime m > 0.75" "\<not> speaking ob"
      by (auto simp add: new_effects_def)
    let ?w1 = "if st_size m > 1024 then snd (transcribe_and_send env g p w) else w"
    obtain es name where t:
        "effects (snd (transcribe_and_send env g p w))
           = effects w @ Transcribe p # es @ [ChannelSend (str_of (name @ '': '') @ strip res)]"
        "\<forall>e \<in> set es. \<exists>g u. e = FetchGuild g \<or> e = FetchMember u"
      using tas_speech [OF Inr False] by blast
    obtain es2 where es2: "effects (snd (process_file env g ob p w)) = effects ?w1 @ es2"
        "set es2 \<subseteq> {Unlink p, UnlinkFailed p}"
      using process_file_effects [OF m refl, of env g] by blast
    have "msg = str_of (name @ '': '') @ strip res"
    proof (cases "st_size m > 1024")
      case True
      with es2 t assms show ?thesis by (auto simp add: new_effects_def)
    next
      case False
      with es2 assms show ?thesis by (auto simp add: new_effects_def)
    qed
    with Inr False show ?thesis by blast
  qed
qed

lemmas sweeper_eval =
  process_file_def try_file_def transcribe_and_send_def example_world_def example_env_def
  emit_def unlink_if_exists_def unlink_def get_username_def cache_key_def extract_user_id_def
  stem_def rfind_dot_def py_index_def strip_def py_isspace_def new_effects_def str_of_def

text \<open>When the engine raises for a file and the handler's \<^verbatim>\<open>unlink()\<close> raises too, the
  exception leaves the \<^verbatim>\<open>for\<close> loop: the file stays and the rest of the listing is
  not reached in this sweep.\<close>

lemma sweep_stops_when_handler_unlink_raises:
  "sweep locked_env 1
     [(''bad_9.wav'', \<lparr>now = 12, speaking = False\<rparr>),
      (''rec_7.wav'', \<lparr>now = 13, speaking = False\<rparr>)] example_world
   = (Some (Exception ''PermissionError''),
      example_world\<lparr>effects := [Transcribe ''bad_9.wav'', UnlinkFailed ''bad_9.wav'']\<rparr>)"
  by (simp add: sweeper_eval locked_env_def)

section \<open>Properties of the recording loop\<close>

lemma loop_body_mono: "loop_body s d sh t = Some d' \<Longrightarrow> d \<le> d'"
  by (auto simp add: loop_body_def Let_def split: if_splits)

lemma loop_body_break:
  "loop_body s d sh t = None \<longleftrightarrow>
     \<not> is_speaking sh \<and> t - last_speech_time sh \<ge> 1 \<and> t - s \<ge> d"
  by (simp add: loop_body_def Let_def)

lemma record_loop_append:
  "record_loop s d sh (xs @ ys) =
     (case record_loop s d sh xs of
        Recording d' sh' \<Rightarrow> record_loop s d' sh' ys
      | Broke d' t sh' rest \<Rightarrow> Broke d' t sh' (rest @ ys))"
  by (induction s d sh xs rule: record_loop.induct) (auto split: option.splits)

lemma target_mono: "d \<le> target (record_loop s d sh items)"
proof (induction s d sh items rule: record_loop.induct)
  case (2 s d sh t rest)
  show ?case
  proof (cases "loop_body s d sh t")
    case None
    then show ?thesis by simp
  next
    case (Some d')
    with 2 [OF Some] loop_body_mono [OF Some] show ?thesis by simp
  qed
qed simp_all

lemma broke_state:
  "record_loop s d sh items = Broke d' t sh' rest \<Longrightarrow>
     loop_body s d' sh' t = None \<and> d \<le> d'"
proof (induction s d sh items rule: record_loop.induct)
  case (2 s d sh t rest)
  show ?case
  proof (cases "loop_body s d sh t")
    case None
    with 2(2) show ?thesis by auto
  next
    case (Some d'')
    with 2 loop_body_mono [OF Some] show ?thesis by fastforce
  qed
qed simp_all

lemma speaking_ticks:
  "is_speaking sh \<Longrightarrow> \<forall>t \<in> set ts. t - s + 2 \<le> d \<Longrightarrow>
     record_loop s d sh (map Wake ts @ rest) = record_loop s d sh rest"
  by (induction ts) (auto simp add: loop_body_def Let_def max_def)

lemma silent_ticks:
  "\<not> is_speaking sh \<Longrightarrow> \<forall>t \<in> set ts. t - s < d \<Longrightarrow>
     record_loop s d sh (map Wake ts @ rest) = record_loop s d sh rest"
  by (induction ts) (auto simp add: loop_body_def Let_def)

lemma ticks_append: "i \<le> j \<Longrightarrow> j \<le> k \<Longrightarrow> ticks i k = ticks i j @ ticks j k"
proof -
  assume ij: "i \<le> j" and jk: "j \<le> k"
  from jk obtain n where n: "k = j + n" by (auto simp: le_iff_add)
  from upt_add_eq_append [OF ij, of n] n show ?thesis
    by (simp add: ticks_def)
qed

lemma ticks_Cons: "i < j \<Longrightarrow> ticks i j = Wake (real i / 10) # ticks (Suc i) j"
  by (simp add: ticks_def upt_conv_Cons)

lemma ticks_map: "ticks i j = map Wake (map (\<lambda>k. real k / 10) [i..<j])"
  by (simp add: ticks_def)

lemma speaking_grid:
  "is_speaking sh \<Longrightarrow> real j / 10 - s + 2 \<le> d + 1 / 10 \<Longrightarrow>
     record_loop s d sh (ticks i j @ rest) = record_loop s d sh rest"
proof -
  assume sp: "is_speaking sh" and b: "real j / 10 - s + 2 \<le> d + 1 / 10"
  have "\<forall>t \<in> set (map (\<lambda>k. real k / 10) [i..<j]). t - s + 2 \<le> d"
  proof
    fix t assume "t \<in> set (map (\<lambda>k. real k / 10) [i..<j])"
    then obtain k where k: "t = real k / 10" "k < j" by auto
    then have "real k + 1 \<le> real j" by linarith
    with b k(1) show "t - s + 2 \<le> d" by (simp add: field_simps)
  qed
  from speaking_ticks [OF sp this] show ?thesis by (simp add: ticks_map)
qed

lemma silent_grid:
  "\<not> is_speaking sh \<Longrightarrow> real j / 10 - s \<le> d \<Longrightarrow>
     record_loop s d sh (ticks i j @ rest) = record_loop s d sh rest"
proof -
  assume sp: "\<not> is_speaking sh" and b: "real j / 10 - s \<le> d"
  have "\<forall>t \<in> set (map (\<lambda>k. real k / 10) [i..<j]). t - s < d"
  proof
    fix t assume "t \<in> set (map (\<lambda>k. real k / 10) [i..<j])"
    then obtain k where k: "t = real k / 10" "k < j" by auto
    then have "real k < real j" by linarith
    with b k(1) show "t - s < d" by (simp add: field_simps)
  qed
  from silent_ticks [OF sp this] show ?thesis by (simp add: ticks_map)
qed

lemma scenario:
  "record_loop 0 20 quiet
     (VoiceStateUpdate 0 (speaks 7 True) # ticks 0 30 @ VoiceStateUpdate 3 (speaks 7 False) # ticks 30 250)
   = Broke 20 20 quiet (ticks 201 250)"
proof -
  let ?spk = "quiet\<lparr>is_speaking := True, last_speech_time := 0\<rparr>"
  have t: "ticks 30 250 = ticks 30 200 @ Wake 20 # ticks 201 250"
    using ticks_append [of 30 200 250] ticks_Cons [of 200 250] by simp
  have a: "on_voice_state_update 0 (speaks 7 True) quiet = ?spk"
    by (simp add: on_voice_state_update_def speaks_def quiet_def)
  have b: "on_voice_state_update 3 (speaks 7 False) ?spk = quiet"
    by (simp add: on_voice_state_update_def speaks_def quiet_def)
  have sp: "is_speaking ?spk" by simp
  have q: "\<not> is_speaking quiet" by (simp add: quiet_def)
  have "record_loop 0 20 quiet
     (VoiceStateUpdate 0 (speaks 7 True) # ticks 0 30 @ VoiceStateUpdate 3 (speaks 7 False) # ticks 30 250)
     = record_loop 0 20 ?spk (ticks 0 30 @ VoiceStateUpdate 3 (speaks 7 False) # ticks 30 250)"
    by (simp add: a)
  also have "\<dots> = record_loop 0 20 ?spk (VoiceStateUpdate 3 (speaks 7 False) # ticks 30 250)"
    by (rule speaking_grid [OF sp]) simp
  also have "\<dots> = record_loop 0 20 quiet (ticks 30 200 @ Wake 20 # ticks 201 250)"
    by (simp add: b t)
  also have "\<dots> = record_loop 0 20 quiet (Wake 20 # ticks 201 250)"
    by (rule silent_grid [OF q]) simp
  also have "\<dots> = Broke 20 20 quiet (ticks 201 250)"
    by (simp add: loop_body_def quiet_def)
  finally show ?thesis .
qed

lemma stop_after_break:
  assumes "StopRecording \<in> set (calls_of (cycle_body sh [] items))"
  shows "\<exists>start sh1 r1 d t sh2 r2.
           await sh items = Resumed start sh1 r1
         \<and> record_loop start 20 sh1 (Wake start # r1) = Broke d t sh2 r2"
proof (cases "capture_fault sh")
  case True
  with assms show ?thesis by (simp add: cycle_body_def)
next
  case False
  show ?thesis
  proof (cases "await sh items")
    case (Pending sh1)
    with assms False show ?thesis by (simp add: cycle_body_def)
  next
    case (Resumed start sh1 r1)
    show ?thesis
    proof (cases "record_loop start 20 sh1 (Wake start # r1)")
      case (Recording d sh2)
      with assms False Resumed show ?thesis
        by (simp add: cycle_body_def del: record_loop.simps)
    next
      case (Broke d t sh2 r2)
      with Resumed show ?thesis by blast
    qed
  qed
qed

section \<open>The claims about the sweeper\<close>

text \<open>
  Claim C5. A staged file whose age (clock reading minus last-modified time) is below
  0.75 s, or that is examined while the tracker reports speaking, is not handed to the
  transcription engine: the sweeper leaves the file, the cache and the list of effects
  exactly as they were and raises nothing, so the file is there to be examined by a
  later sweep.
\<close>

theorem sweeper_skips_unsettled_file:
  assumes "fs w p = Some m"
    and "now ob - st_mtime m < 0.75 \<or> speaking ob"
  shows "process_file env g ob p w = (None, w)
       \<and> Transcribe p \<notin> set (new_effects w (snd (process_file env g ob p w)))"
proof -
  have "process_file env g ob p w = (None, w)"
    using assms by (auto simp add: process_file_def try_file_def)
  then show ?thesis by (simp add: new_effects_def)
qed

theorem sweeper_skips_unsettled_file_witness:
  "fs example_world ''rec_42.wav'' = Some \<lparr>st_mtime = 10, st_size = 4096\<rparr>
   \<and> now \<lparr>now = 10.5, speaking = False\<rparr> - st_mtime \<lparr>st_mtime = 10, st_size = 4096\<rparr> < 0.75
   \<and> process_file example_env 1 \<lparr>now = 10.5, speaking = False\<rparr> ''rec_42.wav'' example_world
       = (None, example_world)
   \<and> speaking \<lparr>now = 60, speaking = True\<rparr>
   \<and> process_file example_env 1 \<lparr>now = 60, speaking = True\<rparr> ''rec_42.wav'' example_world
       = (None, example_world)"
  using sweeper_skips_unsettled_file
          [of example_world "''rec_42.wav''" "\<lparr>st_mtime = 10, st_size = 4096\<rparr>"
              "\<lparr>now = 10.5, speaking = False\<rparr>" example_env 1]
        sweeper_skips_unsettled_file
          [of example_world "''rec_42.wav''" "\<lparr>st_mtime = 10, st_size = 4096\<rparr>"
              "\<lparr>now = 60, speaking = True\<rparr>" example_env 1]
  by (simp add: example_world_def)

text \<open>
  Claim C8. For an eligible file (older than 0.75 s, nobody speaking) of at most 1024
  bytes the sweeper only calls \<^verbatim>\<open>unlink()\<close>: whatever \<^verbatim>\<open>unlink()\<close> does, the engine is
  not invoked, no name is looked up and nothing is sent to the channel. When the
  \<^verbatim>\<open>unlink()\<close> of line 196 does not raise, the file is deleted and that is the only
  effect; when it raises and the handler's \<^verbatim>\<open>unlink()\<close> (line 200) does not, the
  file is deleted by the handler.
\<close>

theorem small_file_deleted_without_engine:
  assumes "fs w p = Some m"
    and "now ob - st_mtime m > 0.75" and "\<not> speaking ob"
    and "st_size m \<le> 1024"
  shows "set (new_effects w (snd (process_file env g ob p w))) \<subseteq> {Unlink p, UnlinkFailed p}
       \<and> (os_unlink env (effects w) p = Inr ()
          \<longrightarrow> process_file env g ob p w
                = (None, emit (Unlink p) (w\<lparr>fs := (fs w)(p := None)\<rparr>)))
       \<and> (os_unlink env (effects w) p = Inl e
            \<and> os_unlink env (effects w @ [UnlinkFailed p]) p = Inr ()
          \<longrightarrow> process_file env g ob p w
                = (None, emit (Unlink p)
                     ((emit (UnlinkFailed p) w)\<lparr>fs := (fs w)(p := None)\<rparr>)))"
proof -
  have a: "set (new_effects w (snd (process_file env g ob p w))) \<subseteq> {Unlink p, UnlinkFailed p}"
    using process_file_effects [OF assms(1-3) refl, of env g] assms(4)
    by (auto simp add: new_effects_def)
  have b: "process_file env g ob p w = (None, emit (Unlink p) (w\<lparr>fs := (fs w)(p := None)\<rparr>))"
    if "os_unlink env (effects w) p = Inr ()"
    using assms that
    by (simp add: process_file_def try_file_def unlink_if_exists_def unlink_def)
  have c: "process_file env g ob p w
             = (None, emit (Unlink p) ((emit (UnlinkFailed p) w)\<lparr>fs := (fs w)(p := None)\<rparr>))"
    if "os_unlink env (effects w) p = Inl e"
      and "os_unlink env (effects w @ [UnlinkFailed p]) p = Inr ()"
    using assms that
    by (simp add: process_file_def try_file_def unlink_if_exists_def unlink_def emit_def)
  from a b c show ?thesis by blast
qed

theorem small_file_deleted_without_engine_witness:
  "fs example_world ''small_1.wav'' = Some \<lparr>st_mtime = 10, st_size = 500\<rparr>
   \<and> now \<lparr>now = 12, speaking = False\<rparr> - st_mtime \<lparr>st_mtime = 10, st_size = 500\<rparr> > 0.75
   \<and> \<not> speaking \<lparr>now = 12, speaking = False\<rparr>
   \<and> st_size \<lparr>st_mtime = 10, st_size = 500\<rparr> \<le> 1024
   \<and> os_unlink example_env (effects example_world) ''small_1.wav'' = Inr ()
   \<and> process_file example_env 1 \<lparr>now = 12, speaking = False\<rparr> ''small_1.wav'' example_world
       = (None, emit (Unlink ''small_1.wav'')
                  (example_world\<lparr>fs := (fs example_world)(''small_1.wav'' := None)\<rparr>))
   \<and> os_unlink locked_env (effects example_world) ''small_1.wav''
       = Inl (Exception ''PermissionError'')
   \<and> os_unlink locked_env (effects example_world @ [UnlinkFailed ''small_1.wav'']) ''small_1.wav''
       = Inr ()
   \<and> effects (snd (process_file locked_env 1 \<lparr>now = 12, speaking = False\<rparr> ''small_1.wav''
                      example_world))
       = [UnlinkFailed ''small_1.wav'', Unlink ''small_1.wav'']"
proof -
  have h: "fs example_world ''small_1.wav'' = Some \<lparr>st_mtime = 10, st_size = 500\<rparr>"
      "now \<lparr>now = 12, speaking = False\<rparr> - st_mtime \<lparr>st_mtime = 10, st_size = 500\<rparr> > 0.75"
      "\<not> speaking \<lparr>now = 12, speaking = False\<rparr>"
      "st_size \<lparr>st_mtime = 10, st_size = 500\<rparr> \<le> 1024"
    by (simp_all add: example_world_def)
  have u: "os_unlink example_env (effects example_world) ''small_1.wav'' = Inr ()"
      "os_unlink locked_env (effects example_world) ''small_1.wav''
         = Inl (Exception ''PermissionError'')"
      "os_unlink locked_env (effects example_world @ [UnlinkFailed ''small_1.wav'']) ''small_1.wav''
         = Inr ()"
    by (simp_all add: example_env_def locked_env_def example_world_def)
  from small_file_deleted_without_engine [OF h, of example_env 1 "Exception ''PermissionError''"]
       small_file_deleted_without_engine [OF h, of locked_env 1 "Exception ''PermissionError''"]
       h u
  show ?thesis by (simp add: emit_def example_world_def)
qed

text \<open>
  Claim C7. The stripped text is empty exactly when every code point of the text is
  white space (for the empty text too). When the engine returns such a text,
  processing the file adds no effect other than the engine call and the calls of
  \<^verbatim>\<open>unlink()\<close>: no name lookup and no channel message. Conversely every channel message
  the sweeper sends for a file carries the non-empty stripped text the engine returned
  for it.
\<close>

theorem blank_transcription_emits_nothing:
  "(strip res = [] \<longleftrightarrow> (\<forall>c \<in> set res. py_isspace c))
   \<and> (whisper_transcribe env p = Inr res \<and> strip res = []
      \<longrightarrow> set (new_effects w (snd (process_file env g ob p w)))
            \<subseteq> {Transcribe p, Unlink p, UnlinkFailed p})
   \<and> (ChannelSend msg \<in> set (new_effects w (snd (process_file env g ob p w)))
      \<longrightarrow> (\<exists>res name. whisper_transcribe env p = Inr res \<and> strip res \<noteq> []
                      \<and> msg = str_of (name @ '': '') @ strip res))"
proof -
  have s: "strip res = [] \<longleftrightarrow> (\<forall>c \<in> set res. py_isspace c)"
  proof
    assume "strip res = []"
    then have "dropWhile py_isspace (rev (dropWhile py_isspace res)) = []"
      by (simp add: strip_def)
    then have "\<forall>c \<in> set (rev (dropWhile py_isspace res)). py_isspace c"
      by (simp only: dropWhile_eq_Nil_conv)
    then have "\<forall>c \<in> set (dropWhile py_isspace res). py_isspace c"
      by (simp only: set_rev)
    then have "dropWhile py_isspace res = []"
      using hd_dropWhile [of py_isspace res] by (cases "dropWhile py_isspace res") auto
    then show "\<forall>c \<in> set res. py_isspace c"
      by (simp add: dropWhile_eq_Nil_conv)
  next
    assume "\<forall>c \<in> set res. py_isspace c"
    then show "strip res = []"
      by (auto simp add: strip_def dest: set_dropWhileD)
  qed
  from s blank_effects [of env p _ w g ob] send_needs_speech [of msg w env g ob p]
  show ?thesis by blast
qed

theorem blank_transcription_emits_nothing_witness:
  "whisper_transcribe example_env ''rec_7.wav'' = Inr [0x20, 0x0A, 0xA0, 0x3000]
   \<and> strip [0x20, 0x0A, 0xA0, 0x3000] = []
   \<and> py_isspace 0x20 \<and> py_isspace 0x0A \<and> py_isspace 0xA0 \<and> py_isspace 0x3000
   \<and> effects (snd (process_file example_env 1 \<lparr>now = 12, speaking = False\<rparr> ''rec_7.wav''
                      example_world))
       = [Transcribe ''rec_7.wav'', Unlink ''rec_7.wav'']
   \<and> ChannelSend (str_of ''User_42: hello there'')
       \<in> set (new_effects example_world
            (snd (process_file example_env 1 \<lparr>now = 12, speaking = False\<rparr> ''rec_42.wav''
                    example_world)))
   \<and> (\<exists>res name. whisper_transcribe example_env ''rec_42.wav'' = Inr res \<and> strip res \<noteq> []
          \<and> str_of ''User_42: hello there'' = str_of (name @ '': '') @ strip res)"
proof -
  have blank: "whisper_transcribe example_env ''rec_7.wav'' = Inr [0x20, 0x0A, 0xA0, 0x3000]"
      "strip [0x20, 0x0A, 0xA0, 0x3000] = []"
    by (simp_all add: example_env_def strip_def py_isspace_def)
  have sp: "py_isspace 0x20 \<and> py_isspace 0x0A \<and> py_isspace 0xA0 \<and> py_isspace 0x3000"
    using blank_transcription_emits_nothing [of "[0x20, 0x0A, 0xA0, 0x3000]"] blank(2)
    by simp
  have e7: "effects (snd (process_file example_env 1 \<lparr>now = 12, speaking = False\<rparr> ''rec_7.wav''
                      example_world))
       = [Transcribe ''rec_7.wav'', Unlink ''rec_7.wav'']"
    by (simp add: sweeper_eval)
  have sent: "ChannelSend (str_of ''User_42: hello there'')
       \<in> set (new_effects example_world
            (snd (process_file example_env 1 \<lparr>now = 12, speaking = False\<rparr> ''rec_42.wav''
                    example_world)))"
    by (simp add: sweeper_eval)
  from blank_transcription_emits_nothing
         [of "[0x20, 0x0A, 0xA0, 0x3000]" example_env "''rec_42.wav''" example_world 1
             "\<lparr>now = 12, speaking = False\<rparr>" "str_of ''User_42: hello there''"] sent
  have ex: "\<exists>res name. whisper_transcribe example_env ''rec_42.wav'' = Inr res \<and> strip res \<noteq> []
          \<and> str_of ''User_42: hello there'' = str_of (name @ '': '') @ strip res"
    by blast
  from blank sp e7 sent ex show ?thesis by blast
qed



text \<open>
  Claim C9. When the name is not cached and resolving it raises (fetching the guild or
  the member fails), \<^verbatim>\<open>get_username\<close> returns \<open>User_<id>\<close> and caches nothing; the
  sweeper then still sends the transcript of a file of that participant, under the
  placeholder name.
\<close>

theorem get_username_falls_back_to_placeholder:
  assumes "user_cache w (cache_key user_id guild_id) = None"
    and "resolution_fails env user_id guild_id"
  shows "fst (get_username env user_id guild_id w) = ''User_'' @ user_id
       \<and> user_cache (snd (get_username env user_id guild_id w)) = user_cache w
       \<and> (fs w p = Some m \<and> now ob - st_mtime m > 0.75 \<and> \<not> speaking ob \<and> st_size m > 1024
           \<and> whisper_transcribe env p = Inr res \<and> strip res \<noteq> []
           \<and> extract_user_id (stem p) = Inr user_id
          \<longrightarrow> ChannelSend (str_of (''User_'' @ user_id @ '': '') @ strip res)
                \<in> set (new_effects w (snd (process_file env guild_id ob p w))))"
proof -
  have name: "fst (get_username env user_id guild_id w') = ''User_'' @ user_id
       \<and> user_cache (snd (get_username env user_id guild_id w')) = user_cache w'"
    if "user_cache w' = user_cache w" for w'
    using assms that
    by (simp add: get_username_def resolution_fails_def emit_def Let_def split: sum.splits)
  have "ChannelSend (str_of (''User_'' @ user_id @ '': '') @ strip res)
                \<in> set (new_effects w (snd (process_file env guild_id ob p w)))"
    if h: "fs w p = Some m" "now ob - st_mtime m > 0.75" "\<not> speaking ob" "st_size m > 1024"
          "whisper_transcribe env p = Inr res" "strip res \<noteq> []"
          "extract_user_id (stem p) = Inr user_id"
  proof -
    let ?w1 = "emit (Transcribe p) w"
    let ?t = "snd (transcribe_and_send env guild_id p w)"
    have n1: "fst (get_username env user_id guild_id ?w1) = ''User_'' @ user_id"
      using name [of ?w1] by (simp add: emit_def)
    obtain es where es: "effects (snd (get_username env user_id guild_id ?w1)) = effects ?w1 @ es"
      using get_username_effects [of env user_id guild_id ?w1] by blast
    have t: "effects ?t = effects w @ Transcribe p # es
               @ [ChannelSend (str_of (''User_'' @ user_id @ '': '') @ strip res)]"
      using h(5-7) n1 es
      by (simp add: transcribe_and_send_def Let_def split_beta emit_def split: sum.splits)
    obtain es2 where "effects (snd (process_file env guild_id ob p w)) = effects ?t @ es2"
      using process_file_effects [OF h(1-3) refl, of env guild_id] h(4) by auto
    with t show ?thesis by (simp add: new_effects_def)
  qed
  with name [of w] show ?thesis by simp
qed

theorem get_username_falls_back_to_placeholder_witness:
  "user_cache example_world (cache_key ''42'' 1) = None
   \<and> resolution_fails example_env ''42'' 1
   \<and> fst (get_username example_env ''42'' 1 example_world) = ''User_42''
   \<and> extract_user_id (stem ''rec_42.wav'') = Inr ''42''
   \<and> ChannelSend (str_of ''User_42: hello there'')
       \<in> set (new_effects example_world
            (snd (process_file example_env 1 \<lparr>now = 12, speaking = False\<rparr> ''rec_42.wav''
                    example_world)))"
proof -
  have c: "user_cache example_world (cache_key ''42'' 1) = None"
    by (simp add: example_world_def)
  have f: "resolution_fails example_env ''42'' 1"
    by (simp add: resolution_fails_def example_env_def)
  have h: "fs example_world ''rec_42.wav'' = Some \<lparr>st_mtime = 10, st_size = 4096\<rparr>
       \<and> now \<lparr>now = 12, speaking = False\<rparr> - st_mtime \<lparr>st_mtime = 10, st_size = 4096\<rparr> > 0.75
       \<and> \<not> speaking \<lparr>now = 12, speaking = False\<rparr>
       \<and> st_size \<lparr>st_mtime = 10, st_size = 4096\<rparr> > 1024
       \<and> whisper_transcribe example_env ''rec_42.wav'' = Inr (str_of '' hello there '')
       \<and> strip (str_of '' hello there '') \<noteq> []
       \<and> extract_user_id (stem ''rec_42.wav'') = Inr ''42''"
    by (simp add: example_world_def example_env_def strip_def py_isspace_def str_of_def
          extract_user_id_def stem_def rfind_dot_def py_index_def)
  have s: "strip (str_of '' hello there '') = str_of ''hello there''"
    by (simp add: strip_def py_isspace_def str_of_def)
  from get_username_falls_back_to_placeholder
         [OF c f, of "''rec_42.wav''" "\<lparr>st_mtime = 10, st_size = 4096\<rparr>"
             "\<lparr>now = 12, speaking = False\<rparr>" "str_of '' hello there ''"] c f h s
  show ?thesis by (simp add: str_of_def)
qed

text \<open>
  Claim C10. The participant identifier is computed from the file name's stem alone
  and never raises: for a stem with an underscore it is the text between the first
  and the second underscore (to the end when there is one underscore only), which may
  be empty; for a stem without underscore it is the whole stem. That identifier is
  the one looked up for the message the sweeper sends.
\<close>

theorem user_id_is_second_underscore_token:
  "extract_user_id st = Inr (if CHR ''_'' \<in> set st then second_token st else st)
   \<and> extract_user_id ''_'' = Inr []
   \<and> extract_user_id (stem ''1700000000_42_7.wav'') = Inr ''42''
   \<and> extract_user_id (stem ''42.wav'') = Inr ''42''
   \<and> (whisper_transcribe env p = Inr res \<and> strip res \<noteq> []
      \<longrightarrow> (let user_id = (if CHR ''_'' \<in> set (stem p) then second_token (stem p) else stem p);
               (name, w2) = get_username env user_id g (emit (Transcribe p) w)
           in snd (transcribe_and_send env g p w)
                = emit (ChannelSend (str_of (name @ '': '') @ strip res)) w2))"
proof -
  have a: "extract_user_id s = Inr (if CHR ''_'' \<in> set s then second_token s else s)" for s
    using split_second [of "CHR ''_''" s]
    by (simp add: extract_user_id_def py_index_def second_token_def)
  have b: "extract_user_id ''_'' = Inr []"
    by (simp add: extract_user_id_def py_index_def)
  have c: "extract_user_id (stem ''1700000000_42_7.wav'') = Inr ''42''"
    by (simp add: extract_user_id_def py_index_def stem_def rfind_dot_def)
  have d: "extract_user_id (stem ''42.wav'') = Inr ''42''"
    by (simp add: extract_user_id_def py_index_def stem_def rfind_dot_def)
  have e: "let user_id = (if CHR ''_'' \<in> set (stem p) then second_token (stem p) else stem p);
               (name, w2) = get_username env user_id g (emit (Transcribe p) w)
           in snd (transcribe_and_send env g p w)
                = emit (ChannelSend (str_of (name @ '': '') @ strip res)) w2"
    if "whisper_transcribe env p = Inr res" "strip res \<noteq> []"
    using that a [of "stem p"]
    by (simp add: transcribe_and_send_def Let_def split_beta split: sum.splits)
  from a [of st] b c d e show ?thesis by blast
qed

theorem user_id_is_second_underscore_token_witness:
  "whisper_transcribe example_env ''rec_42.wav'' = Inr (str_of '' hello there '')
   \<and> strip (str_of '' hello there '') \<noteq> []
   \<and> second_token (stem ''rec_42.wav'') = ''42''
   \<and> effects (snd (transcribe_and_send example_env 1 ''rec_42.wav'' example_world))
       = [Transcribe ''rec_42.wav'', FetchGuild 1, ChannelSend (str_of ''User_42: hello there'')]"
proof -
  have h: "whisper_transcribe example_env ''rec_42.wav'' = Inr (str_of '' hello there '')
       \<and> strip (str_of '' hello there '') \<noteq> []"
    by (simp add: example_env_def strip_def py_isspace_def str_of_def)
  have s: "strip (str_of '' hello there '') = str_of ''hello there''"
    by (simp add: strip_def py_isspace_def str_of_def)
  have t: "second_token (stem ''rec_42.wav'') = ''42''" "CHR ''_'' \<in> set (stem ''rec_42.wav'')"
    by (simp_all add: second_token_def stem_def rfind_dot_def)
  have g: "get_username example_env ''42'' 1 (emit (Transcribe ''rec_42.wav'') example_world)
       = (''User_42'', emit (FetchGuild 1) (emit (Transcribe ''rec_42.wav'') example_world))"
    by (simp add: get_username_def example_env_def example_world_def emit_def cache_key_def)
  from user_id_is_second_underscore_token
         [of "stem ''rec_42.wav''" example_env "''rec_42.wav''" "str_of '' hello there ''" 1
             example_world]
       h s t g
  show ?thesis by (simp add: emit_def example_world_def str_of_def)
qed

section \<open>The claims about the recorder\<close>

text \<open>
  Claim C1. At a tick of a recording cycle at which the tracker reports speaking, the
  loop sets the target duration to \<open>max target (elapsed + 2)\<close> and goes on recording;
  since the target never decreases, it is at least \<open>(T - start) + 2\<close> from that tick
  on, whatever happens later in the cycle. Here \<open>pre\<close> is the cycle's timeline up to
  the tick at clock reading \<open>t\<close>, and \<open>post\<close> any continuation.
\<close>

theorem speaking_tick_extends_target:
  assumes "record_loop s d0 sh0 pre = Recording d sh" and "is_speaking sh"
  shows "record_loop s d0 sh0 (pre @ [Wake t]) = Recording (max d (t - s + 2)) sh
       \<and> (t - s) + 2 \<le> target (record_loop s d0 sh0 (pre @ Wake t # post))"
proof -
  have body: "loop_body s d sh t = Some (max d (t - s + 2))"
    using assms(2) by (simp add: loop_body_def)
  have one: "record_loop s d0 sh0 (pre @ [Wake t]) = Recording (max d (t - s + 2)) sh"
    using assms(1) body by (simp add: record_loop_append)
  have "record_loop s d0 sh0 (pre @ Wake t # post) = record_loop s (max d (t - s + 2)) sh post"
    using assms(1) body by (simp add: record_loop_append)
  moreover have "max d (t - s + 2) \<le> target (record_loop s (max d (t - s + 2)) sh post)"
    by (rule target_mono)
  ultimately have "(t - s) + 2 \<le> target (record_loop s d0 sh0 (pre @ Wake t # post))"
    by simp
  with one show ?thesis by simp
qed

theorem speaking_tick_extends_target_witness:
  "record_loop 0 20 quiet [VoiceStateUpdate 0.5 (speaks 7 True)]
     = Recording 20 (quiet\<lparr>is_speaking := True, last_speech_time := 0.5\<rparr>)
   \<and> is_speaking (quiet\<lparr>is_speaking := True, last_speech_time := 0.5\<rparr>)
   \<and> record_loop 0 20 quiet ([VoiceStateUpdate 0.5 (speaks 7 True)] @ [Wake 19])
     = Recording 21 (quiet\<lparr>is_speaking := True, last_speech_time := 0.5\<rparr>)
   \<and> (19 - 0) + 2
       \<le> target (record_loop 0 20 quiet
            ([VoiceStateUpdate 0.5 (speaks 7 True)] @
             Wake 19 # [VoiceStateUpdate 19.05 (speaks 7 False), Wake 19.1, Wake 21]))"
proof -
  have pre: "record_loop 0 20 quiet [VoiceStateUpdate 0.5 (speaks 7 True)]
     = Recording 20 (quiet\<lparr>is_speaking := True, last_speech_time := 0.5\<rparr>)"
    by (simp add: on_voice_state_update_def speaks_def quiet_def)
  have sp: "is_speaking (quiet\<lparr>is_speaking := True, last_speech_time := 0.5\<rparr>)"
    by simp
  from speaking_tick_extends_target
         [OF pre sp, of 19 "[VoiceStateUpdate 19.05 (speaks 7 False), Wake 19.1, Wake 21]"] pre sp
  show ?thesis
    by (simp add: loop_body_def on_voice_state_update_def speaks_def quiet_def)
qed

text \<open>
  Claim C2. An iteration leaves the recording loop exactly when the tracker reports not
  speaking, at least 1.0 s have passed since the last speech and the elapsed time has
  reached the target duration; so a loop that was left was left at such a tick. In the
  scenario (speech starts at 0 s and ends at 3 s, ticks every 0.1 s from 0 s) the
  target stays \<open>max 20 (3 + 2) = 20\<close> and the loop is left at the tick of 20 s, not at
  the ticks after 3 s at which the silence already lasts 1 s.
\<close>

theorem stop_needs_silence_and_target:
  "(loop_body s d sh t = None \<longleftrightarrow>
      \<not> is_speaking sh \<and> t - last_speech_time sh \<ge> 1.0 \<and> t - s \<ge> d)
   \<and> (record_loop s d sh items = Broke d' t' sh' rest
      \<longrightarrow> \<not> is_speaking sh' \<and> t' - last_speech_time sh' \<ge> 1.0 \<and> t' - s \<ge> d')
   \<and> record_loop 0 20 quiet scenario_timeline = Broke 20 20 quiet (ticks 201 250)"
proof -
  have a: "loop_body s d sh t = None \<longleftrightarrow>
      \<not> is_speaking sh \<and> t - last_speech_time sh \<ge> 1.0 \<and> t - s \<ge> d"
    using loop_body_break [of s d sh t] by simp
  have b: "\<not> is_speaking sh' \<and> t' - last_speech_time sh' \<ge> 1.0 \<and> t' - s \<ge> d'"
    if "record_loop s d sh items = Broke d' t' sh' rest"
    using broke_state [OF that] loop_body_break [of s d' sh' t'] by simp
  have c: "record_loop 0 20 quiet scenario_timeline = Broke 20 20 quiet (ticks 201 250)"
    using scenario by (simp add: scenario_timeline_def)
  from a b c show ?thesis by blast
qed

theorem stop_needs_silence_and_target_witness:
  "record_loop 0 20 quiet scenario_timeline = Broke 20 20 quiet (ticks 201 250)
   \<and> \<not> is_speaking quiet \<and> 20 - last_speech_time quiet \<ge> 1.0 \<and> (20::real) - 0 \<ge> 20
   \<and> loop_body 0 20 quiet 20 = None
   \<and> loop_body 0 20 quiet 4 = Some 20"
proof -
  have c: "record_loop 0 20 quiet scenario_timeline = Broke 20 20 quiet (ticks 201 250)"
    using scenario by (simp add: scenario_timeline_def)
  have e: "loop_body 0 20 quiet 4 = Some 20"
    by (simp add: loop_body_def quiet_def)
  from stop_needs_silence_and_target
         [of 0 20 quiet 20 scenario_timeline 20 20 quiet "ticks 201 250"] c e
  show ?thesis by (simp add: quiet_def)
qed

text \<open>
  Claim C3. The target duration of a cycle starts at 20 s (\<^verbatim>\<open>recording_duration = 20\<close>,
  the value \<open>cycle_body\<close> passes) and never decreases, and the loop is left only
  with the elapsed time at least the target: whatever the activity events, the target
  is at least 20 s throughout and a segment is not stopped before 20 s have elapsed.
  A cycle calls \<^verbatim>\<open>stop_recording\<close> only after its loop was left, so at least 20 s
  after its \<^verbatim>\<open>start_time\<close>.
\<close>

theorem segment_lasts_base_duration:
  "d0 \<le> target (record_loop s d0 sh items)
   \<and> 20 \<le> target (record_loop s 20 sh items)
   \<and> (record_loop s 20 sh items = Broke d t sh' rest \<longrightarrow> 20 \<le> d \<and> d \<le> t - s \<and> 20 \<le> t - s)
   \<and> (StopRecording \<in> set (calls_of (cycle_body sh [] items)) \<longrightarrow>
        (\<exists>start sh1 r1 d t sh2 r2.
            await sh items = Resumed start sh1 r1
          \<and> record_loop start 20 sh1 (Wake start # r1) = Broke d t sh2 r2
          \<and> 20 \<le> t - start))"
proof -
  have br: "20 \<le> d \<and> d \<le> t - s \<and> 20 \<le> t - s"
    if "record_loop s 20 sh items = Broke d t sh' rest" for s sh items d t sh' rest
    using broke_state [OF that] loop_body_break [of s d sh' t] by simp
  have st: "\<exists>start sh1 r1 d t sh2 r2.
            await sh items = Resumed start sh1 r1
          \<and> record_loop start 20 sh1 (Wake start # r1) = Broke d t sh2 r2
          \<and> 20 \<le> t - start"
    if "StopRecording \<in> set (calls_of (cycle_body sh [] items))"
  proof -
    from stop_after_break [OF that] obtain start sh1 r1 d t sh2 r2 where
      h: "await sh items = Resumed start sh1 r1"
         "record_loop start 20 sh1 (Wake start # r1) = Broke d t sh2 r2"
      by blast
    from br [OF h(2)] have "20 \<le> t - start" by simp
    with h show ?thesis by blast
  qed
  from br st target_mono [of d0 s sh items] target_mono [of 20 s sh items]
  show ?thesis by blast
qed

theorem segment_lasts_base_duration_witness:
  "record_loop 5 20 quiet [Wake 24.9, VoiceStateUpdate 24.95 (speaks 7 False), Wake 25, Wake 25.1]
     = Broke 20 25 quiet [Wake 25.1]
   \<and> (20::real) \<le> 20 \<and> (20::real) \<le> 25 - 5
   \<and> cycle_body quiet [] [Wake 5, Wake 24.9, Wake 25, Wake 25.1]
     = Completed quiet [StartRecording, StopRecording] []
   \<and> StopRecording \<in> set (calls_of (cycle_body quiet [] [Wake 5, Wake 24.9, Wake 25, Wake 25.1]))
   \<and> (\<exists>start sh1 r1 d t sh2 r2.
            await quiet [Wake 5, Wake 24.9, Wake 25, Wake 25.1] = Resumed start sh1 r1
          \<and> record_loop start 20 sh1 (Wake start # r1) = Broke d t sh2 r2
          \<and> 20 \<le> t - start)"
proof -
  have r: "record_loop 5 20 quiet
             [Wake 24.9, VoiceStateUpdate 24.95 (speaks 7 False), Wake 25, Wake 25.1]
           = Broke 20 25 quiet [Wake 25.1]"
    by (simp add: loop_body_def on_voice_state_update_def speaks_def quiet_def)
  have c: "cycle_body quiet [] [Wake 5, Wake 24.9, Wake 25, Wake 25.1]
     = Completed quiet [StartRecording, StopRecording] []"
    by (simp add: cycle_body_def loop_body_def quiet_def)
  then have m: "StopRecording \<in> set (calls_of (cycle_body quiet [] [Wake 5, Wake 24.9, Wake 25, Wake 25.1]))"
    by simp
  from segment_lasts_base_duration
         [of 20 5 quiet "[Wake 24.9, VoiceStateUpdate 24.95 (speaks 7 False), Wake 25, Wake 25.1]"
             20 25 quiet "[Wake 25.1]"]
  have one: "(20::real) \<le> 20 \<and> (20::real) \<le> 25 - 5" by simp
  from segment_lasts_base_duration
         [of 20 5 quiet "[Wake 5, Wake 24.9, Wake 25, Wake 25.1]" 20 25 quiet "[]"] m
  have two: "\<exists>start sh1 r1 d t sh2 r2.
            await quiet [Wake 5, Wake 24.9, Wake 25, Wake 25.1] = Resumed start sh1 r1
          \<and> record_loop start 20 sh1 (Wake start # r1) = Broke d t sh2 r2
          \<and> 20 \<le> t - start"
    by blast
  from r one c m two show ?thesis by blast
qed

text \<open>
  Claim C4. The recorder reads \<^verbatim>\<open>is_processing\<close> only at the head of a cycle, not in
  the \<^verbatim>\<open>while True\<close> loop of a segment. With the flag cleared 0.05 s into a silent
  segment, the loop is still running 14.9 s (149 ticks) later and has not stopped the
  capture; it ends only after the tick of 20 s. When the flag is set again one second
  after it was cleared, as \<^verbatim>\<open>join\<close> does, the loop never sees it cleared: it stops its
  segment at 20 s and starts the next one.
\<close>

theorem recorder_misses_cleared_flag:
  "cycle_recording quiet [] (Wake 0 # SetProcessing False # ticks 1 150)
     = (Running, quiet\<lparr>is_processing := False\<rparr>, [StartRecording])
   \<and> cycle_recording quiet [] (Wake 0 # SetProcessing False # ticks 1 202)
     = (Exited, quiet\<lparr>is_processing := False\<rparr>, [StartRecording, StopRecording])
   \<and> cycle_recording quiet []
       (Wake 0 # SetProcessing False # ticks 1 11 @ SetProcessing True # ticks 11 210)
     = (Running, quiet, [StartRecording, StopRecording, StartRecording])"
proof -
  let ?off = "quiet\<lparr>is_processing := False\<rparr>"
  have q: "\<not> is_speaking quiet" "\<not> is_speaking ?off" "is_processing quiet"
      "\<not> capture_fault quiet" "\<not> capture_fault ?off" "\<not> is_processing ?off"
    by (simp_all add: quiet_def)
  have first: "loop_body 0 20 quiet 0 = Some 20" "loop_body 0 20 quiet 20 = None"
      "loop_body 0 20 ?off 20 = None"
    by (simp_all add: loop_body_def quiet_def)
  have on: "?off\<lparr>is_processing := True\<rparr> = quiet"
    by (simp add: quiet_def)
  have a: "record_loop 0 20 quiet (Wake 0 # SetProcessing False # ticks 1 150)
             = Recording 20 ?off"
    using silent_grid [OF q(2), of 150 0 20 1 "[]"] first(1) by simp
  have t202: "ticks 1 202 = ticks 1 200 @ Wake 20 # Wake 20.1 # []"
    using ticks_append [of 1 200 202] ticks_Cons [of 200 202] ticks_Cons [of 201 202]
    by (simp add: ticks_def)
  have b: "record_loop 0 20 quiet (Wake 0 # SetProcessing False # ticks 1 202)
             = Broke 20 20 ?off [Wake 20.1]"
    using silent_grid [OF q(2), of 200 0 20 1 "Wake 20 # Wake 20.1 # []"] first t202 by simp
  have t210: "ticks 11 210 = ticks 11 200 @ Wake 20 # Wake 20.1 # Wake 20.2 # ticks 203 210"
    using ticks_append [of 11 200 210] ticks_Cons [of 200 210] ticks_Cons [of 201 210]
      ticks_Cons [of 202 210]
    by simp
  have c1: "record_loop 0 20 quiet
              (Wake 0 # SetProcessing False # ticks 1 11 @ SetProcessing True # ticks 11 210)
            = record_loop 0 20 ?off (SetProcessing True # ticks 11 210)"
    using silent_grid [OF q(2), of 11 0 20 1 "SetProcessing True # ticks 11 210"] first(1)
    by simp
  have c2: "record_loop 0 20 ?off (SetProcessing True # ticks 11 210)
            = Broke 20 20 quiet (Wake 20.1 # Wake 20.2 # ticks 203 210)"
    using silent_grid [OF q(1), of 200 0 20 11 "Wake 20 # Wake 20.1 # Wake 20.2 # ticks 203 210"]
      first(2) on t210
    by simp
  have c3: "record_loop 20.2 20 quiet (Wake 20.2 # ticks 203 210) = Recording 20 quiet"
  proof -
    have "loop_body 20.2 20 quiet 20.2 = Some 20"
      by (simp add: loop_body_def quiet_def)
    then show ?thesis
      using silent_grid [OF q(1), of 210 "20.2" 20 203 "[]"] by simp
  qed
  have A: "cycle_recording quiet [] (Wake 0 # SetProcessing False # ticks 1 150)
     = (Running, ?off, [StartRecording])"
    using q a
    by (simp add: cycle_recording.simps [of quiet] cycle_body_def del: record_loop.simps)
  have B: "cycle_recording quiet [] (Wake 0 # SetProcessing False # ticks 1 202)
     = (Exited, ?off, [StartRecording, StopRecording])"
    using q b
    by (simp add: cycle_recording.simps [of quiet] cycle_recording.simps [of ?off]
          cycle_body_def del: record_loop.simps)
  have body1: "cycle_body quiet []
       (Wake 0 # SetProcessing False # ticks 1 11 @ SetProcessing True # ticks 11 210)
     = Completed quiet [StartRecording, StopRecording] (Wake 20.2 # ticks 203 210)"
    using q c1 c2 by (simp add: cycle_body_def del: record_loop.simps)
  have body2: "cycle_body quiet [StartRecording, StopRecording] (Wake 20.2 # ticks 203 210)
     = Suspended quiet [StartRecording, StopRecording, StartRecording]"
    using q c3 by (simp add: cycle_body_def del: record_loop.simps)
  have C: "cycle_recording quiet []
       (Wake 0 # SetProcessing False # ticks 1 11 @ SetProcessing True # ticks 11 210)
     = (Running, quiet, [StartRecording, StopRecording, StartRecording])"
    using q(3) body1 body2
    by (simp add: cycle_recording.simps [of quiet])
  from A B C show ?thesis by simp
qed

end
